theory Spec2Isabelle
  imports Main
begin

section \<open>Python values and strings\<close>

text \<open>
  Embedding of \<^verbatim>\<open>macro_toggle.py\<close>. A Python \<^verbatim>\<open>str\<close> is a \<^typ>\<open>string\<close>; each
  \<^typ>\<open>char\<close> stands for one code point below 256, so texts with code points above
  Latin-1 are outside the embedding. The values that \<^verbatim>\<open>json.loads\<close> hands to the
  program are \<open>pyval\<close>. A \<^verbatim>\<open>float\<close> is \<open>Finite m e\<close>, the number \<open>m * 2 ^ e\<close>, or
  an infinity, or not a number; \<open>VFloat\<close> carries with it the text that \<^verbatim>\<open>repr\<close> gives
  for it, since the formatting of floats is not modelled.
\<close>

datatype pyfloat = Finite int int | PosInf | NegInf | NaN

datatype pyval =
    VNone
  | VBool bool
  | VInt int
  | VFloat pyfloat string
  | VStr string
  | VList "pyval list"
  | VDict "(string \<times> pyval) list"

datatype error = ValueError | TypeError | KeyError | AttributeError | OverflowError | BackendError

text \<open>\<^verbatim>\<open>str.isspace\<close> on code points below 256.\<close>

definition is_space :: "char \<Rightarrow> bool" where
  "is_space c = ((of_char c :: nat) \<in> {9, 10, 11, 12, 13, 28, 29, 30, 31, 32, 133, 160})"

definition strip :: "string \<Rightarrow> string" where
  "strip s = rev (dropWhile is_space (rev (dropWhile is_space s)))"

text \<open>\<^verbatim>\<open>str.lower\<close> on code points below 256: A-Z, and the Latin-1 capitals but the
  multiplication sign.\<close>

definition lower_char :: "char \<Rightarrow> char" where
  "lower_char c =
     (let n = (of_char c :: nat)
      in if (65 \<le> n \<and> n \<le> 90) \<or> (192 \<le> n \<and> n \<le> 222 \<and> n \<noteq> 215)
         then char_of (n + 32) else c)"

definition lower :: "string \<Rightarrow> string" where
  "lower s = map lower_char s"

definition startswith :: "string \<Rightarrow> string \<Rightarrow> bool" where
  "startswith s p = (take (length p) s = p)"

text \<open>\<^verbatim>\<open>s.replace(p, "")\<close> for a non-empty \<open>p\<close>: the occurrences of \<open>p\<close> are removed from
  left to right.\<close>

fun remove_all_sub :: "string \<Rightarrow> string \<Rightarrow> string" where
  "remove_all_sub p [] = []"
| "remove_all_sub p (c # cs) =
     (if p \<noteq> [] \<and> take (length p) (c # cs) = p
      then remove_all_sub p (drop (length p - 1) cs)
      else c # remove_all_sub p cs)"

text \<open>\<^verbatim>\<open>s.split(sep, 1)\<close> for a one-character separator: \<open>None\<close> when \<open>sep\<close> does not
  occur (the list then has the single element \<open>s\<close>), else the two parts.\<close>

definition split1 :: "char \<Rightarrow> string \<Rightarrow> (string \<times> string) option" where
  "split1 sep s =
     (if sep \<in> set s
      then Some (takeWhile (\<lambda>c. c \<noteq> sep) s, drop 1 (dropWhile (\<lambda>c. c \<noteq> sep) s))
      else None)"

definition digit_char :: "nat \<Rightarrow> char" where
  "digit_char d = char_of (48 + d)"

fun dec_nat :: "nat \<Rightarrow> string" where
  "dec_nat n = (if n < 10 then [digit_char n] else dec_nat (n div 10) @ [digit_char (n mod 10)])"

definition dec_int :: "int \<Rightarrow> string" where
  "dec_int i = (if i < 0 then CHR ''-'' # dec_nat (nat (- i)) else dec_nat (nat i))"

text \<open>\<^verbatim>\<open>repr\<close> of a \<^verbatim>\<open>str\<close>: quoted with \<open>'\<close> unless the text has a \<open>'\<close> and no \<open>"\<close>;
  the quote and the backslash are escaped, and so is every code point that is not
  printable.\<close>

definition hex_digit :: "nat \<Rightarrow> char" where
  "hex_digit d = (if d < 10 then char_of (48 + d) else char_of (87 + d))"

definition repr_char :: "char \<Rightarrow> char \<Rightarrow> string" where
  "repr_char q c =
     (let n = (of_char c :: nat)
      in if c = q \<or> c = CHR 0x5C then [CHR 0x5C, c]
         else if n = 9 then [CHR 0x5C, CHR ''t'']
         else if n = 10 then [CHR 0x5C, CHR ''n'']
         else if n = 13 then [CHR 0x5C, CHR ''r'']
         else if n < 32 \<or> (127 \<le> n \<and> n \<le> 160) \<or> n = 173
         then [CHR 0x5C, CHR ''x'', hex_digit (n div 16), hex_digit (n mod 16)]
         else [c])"

definition repr_str :: "string \<Rightarrow> string" where
  "repr_str s =
     (let q = (if CHR 0x27 \<in> set s \<and> CHR 0x22 \<notin> set s then CHR 0x22 else CHR 0x27)
      in q # concat (map (repr_char q) s) @ [q])"

fun join_comma :: "string list \<Rightarrow> string" where
  "join_comma [] = []"
| "join_comma [x] = x"
| "join_comma (x # y # ys) = x @ '', '' @ join_comma (y # ys)"

fun py_repr :: "pyval \<Rightarrow> string" where
  "py_repr VNone = ''None''"
| "py_repr (VBool b) = (if b then ''True'' else ''False'')"
| "py_repr (VInt i) = dec_int i"
| "py_repr (VFloat f t) = t"
| "py_repr (VStr s) = repr_str s"
| "py_repr (VList xs) = ''['' @ join_comma (map py_repr xs) @ '']''"
| "py_repr (VDict kvs) =
     ''{'' @ join_comma (map (\<lambda>(k, v). repr_str k @ '': '' @ py_repr v) kvs) @ ''}''"

text \<open>\<^verbatim>\<open>str(v)\<close>.\<close>

definition py_str :: "pyval \<Rightarrow> string" where
  "py_str v = (case v of VStr s \<Rightarrow> s | _ \<Rightarrow> py_repr v)"

text \<open>Truth value of a Python value (\<^verbatim>\<open>if v\<close>, \<^verbatim>\<open>bool(v)\<close>).\<close>

definition truthy :: "pyval \<Rightarrow> bool" where
  "truthy v =
     (case v of VNone \<Rightarrow> False | VBool b \<Rightarrow> b | VInt i \<Rightarrow> i \<noteq> 0
      | VFloat f t \<Rightarrow> (case f of Finite m e \<Rightarrow> m \<noteq> 0 | _ \<Rightarrow> True)
      | VStr s \<Rightarrow> s \<noteq> [] | VList xs \<Rightarrow> xs \<noteq> [] | VDict kvs \<Rightarrow> kvs \<noteq> [])"

text \<open>Iterating a value (\<^verbatim>\<open>for k in v\<close>, \<^verbatim>\<open>list(v)\<close>): a list gives its elements, a
  \<^verbatim>\<open>str\<close> its characters, a \<^verbatim>\<open>dict\<close> its keys; the other values are not iterable.\<close>

definition py_iter :: "pyval \<Rightarrow> error + pyval list" where
  "py_iter v =
     (case v of VList xs \<Rightarrow> Inr xs | VStr s \<Rightarrow> Inr (map (\<lambda>c. VStr [c]) s)
      | VDict kvs \<Rightarrow> Inr (map (\<lambda>(k, _). VStr k) kvs) | _ \<Rightarrow> Inl TypeError)"

text \<open>\<^verbatim>\<open>d.get(k)\<close> and \<^verbatim>\<open>d.get(k, default)\<close> on a \<^verbatim>\<open>dict\<close> given by its items.\<close>

type_synonym pydict = "(string \<times> pyval) list"

definition dget :: "pydict \<Rightarrow> string \<Rightarrow> pyval" where
  "dget d k = (case map_of d k of None \<Rightarrow> VNone | Some v \<Rightarrow> v)"

definition dget_default :: "pydict \<Rightarrow> string \<Rightarrow> pyval \<Rightarrow> pyval" where
  "dget_default d k dflt = (case map_of d k of None \<Rightarrow> dflt | Some v \<Rightarrow> v)"

section \<open>The input backends\<close>

text \<open>
  The program drives one of two backends, chosen by the module constant \<^verbatim>\<open>USE_PDI\<close>:
  pydirectinput (\<^verbatim>\<open>PDI\<close>) or the pynput controllers \<^verbatim>\<open>K\<close> and \<^verbatim>\<open>M\<close>. A \<open>call\<close>
  is one call into a backend. \<open>keylike\<close> is what \<^verbatim>\<open>parse_key_pynput\<close> returns: the
  attribute of pynput's \<^verbatim>\<open>Key\<close> with the given name, or the key code of a character.
\<close>

datatype keylike = KeyAttr string | KeyChar char

datatype button = ButtonLeft | ButtonRight | ButtonMiddle

datatype call =
    PDI_write string
  | PDI_press string
  | PDI_keyDown string
  | PDI_keyUp string
  | PDI_click string int
  | PDI_mouseDown string
  | PDI_mouseUp string
  | PDI_moveRel int int
  | PDI_moveTo int int
  | PDI_scroll int
  | K_type string
  | K_press keylike
  | K_release keylike
  | M_click button
  | M_press button
  | M_release button
  | M_move int int
  | M_set_position int int
  | M_scroll int int

text \<open>
  What the program takes from outside: the constant \<^verbatim>\<open>USE_PDI\<close>; which names are
  attributes of pynput's \<^verbatim>\<open>Key\<close> (\<^verbatim>\<open>getattr(Key, name)\<close> raises for the others); which
  backend calls raise, given the calls made so far; Python's \<^verbatim>\<open>int\<close> on a \<^verbatim>\<open>str\<close>
  (\<open>None\<close> where it raises \<^verbatim>\<open>ValueError\<close>); and whether
  \<^verbatim>\<open>stop_event.wait(timeout=float(v))\<close> raises.
\<close>

record env =
  USE_PDI :: bool
  key_attr :: "string \<Rightarrow> bool"
  raises :: "call list \<Rightarrow> call \<Rightarrow> bool"
  int_of_str :: "string \<Rightarrow> int option"
  wait_raises :: "pyval \<Rightarrow> error option"

text \<open>
  The state shared by the control thread and the background thread: the held tokens of
  \<^verbatim>\<open>HoldState\<close>, the flag of \<^verbatim>\<open>stop_event\<close>, and the backend calls made so far (a
  call that raised is recorded too). The held tokens are a Python \<^verbatim>\<open>set\<close>; they are
  kept as a list without repetition, whose order is the order in which
  \<^verbatim>\<open>list(self._held)\<close> enumerates them.
\<close>

record state =
  held :: "string list"
  stop_set :: bool
  log :: "call list"

type_synonym outcome = "error option \<times> state"

text \<open>One backend call: recorded, and raising when the environment says so. What a
  backend raises is taken to be an \<^verbatim>\<open>Exception\<close>, which \<^verbatim>\<open>except Exception\<close> catches.\<close>

definition backend :: "env \<Rightarrow> call \<Rightarrow> state \<Rightarrow> outcome" where
  "backend E c s =
     ((if raises E (log s) c then Some BackendError else None), s\<lparr>log := log s @ [c]\<rparr>)"

text \<open>Sequencing of statements: the second runs unless the first raised.\<close>

definition and_then :: "outcome \<Rightarrow> (state \<Rightarrow> outcome) \<Rightarrow> outcome" where
  "and_then r f = (case r of (Some e, s) \<Rightarrow> (Some e, s) | (None, s) \<Rightarrow> f s)"

text \<open>\<^verbatim>\<open>for x in xs: body(x)\<close>.\<close>

fun for_each :: "('a \<Rightarrow> state \<Rightarrow> outcome) \<Rightarrow> 'a list \<Rightarrow> state \<Rightarrow> outcome" where
  "for_each body [] s = (None, s)"
| "for_each body (x # xs) s = and_then (body x s) (for_each body xs)"

text \<open>\<^verbatim>\<open>try: body  except Exception: pass\<close>.\<close>

definition try_pass :: "(state \<Rightarrow> outcome) \<Rightarrow> state \<Rightarrow> outcome" where
  "try_pass body s = (None, snd (body s))"

section \<open>Key and button names\<close>

definition parse_key_pynput :: "env \<Rightarrow> string \<Rightarrow> error + keylike" where
  "parse_key_pynput E s0 =
     (let s = strip s0
      in if startswith s ''Key.''
         then (let name = drop 1 (dropWhile (\<lambda>c. c \<noteq> CHR ''.'') s)
               in if key_attr E name then Inr (KeyAttr name) else Inl ValueError)
         else if length s = 1 then Inr (KeyChar (hd s))
         else Inl ValueError)"

definition PDI_KEY_MAP :: "(string \<times> string) list" where
  "PDI_KEY_MAP =
     [(''Key.enter'', ''enter''), (''Key.esc'', ''esc''), (''Key.tab'', ''tab''),
      (''Key.space'', ''space''), (''Key.backspace'', ''backspace''),
      (''Key.delete'', ''delete''), (''Key.home'', ''home''), (''Key.end'', ''end''),
      (''Key.page_up'', ''pageup''), (''Key.page_down'', ''pagedown''),
      (''Key.up'', ''up''), (''Key.down'', ''down''), (''Key.left'', ''left''),
      (''Key.right'', ''right''), (''Key.shift'', ''shift''), (''Key.shift_l'', ''shift''),
      (''Key.shift_r'', ''shift''), (''Key.ctrl'', ''ctrl''), (''Key.ctrl_l'', ''ctrl''),
      (''Key.ctrl_r'', ''ctrl''), (''Key.alt'', ''alt''), (''Key.alt_l'', ''alt''),
      (''Key.alt_r'', ''alt'')]
     @ map (\<lambda>i. (''Key.f'' @ dec_nat i, ''f'' @ dec_nat i)) [1..<25]"

definition to_pdi_key :: "string \<Rightarrow> string" where
  "to_pdi_key raw0 =
     (let raw = strip raw0
      in if length raw = 1 then raw
         else (case map_of PDI_KEY_MAP raw of
                 Some k \<Rightarrow> k
               | None \<Rightarrow> remove_all_sub ''Key.'' raw))"

definition to_pdi_button :: "string \<Rightarrow> error + string" where
  "to_pdi_button btn =
     (let b = lower (strip btn)
      in if b \<in> {''left'', ''right'', ''middle''} then Inr b else Inl ValueError)"

text \<open>The expression
  \<^verbatim>\<open>Button.left if v == "left" else (Button.right if v == "right" else Button.middle)\<close>.\<close>

definition pynput_button :: "string \<Rightarrow> button" where
  "pynput_button v =
     (if v = ''left'' then ButtonLeft else if v = ''right'' then ButtonRight else ButtonMiddle)"

section \<open>HoldState\<close>

definition mark_down :: "string \<Rightarrow> state \<Rightarrow> state" where
  "mark_down token s = s\<lparr>held := (if token \<in> set (held s) then held s else held s @ [token])\<rparr>"

definition mark_up :: "string \<Rightarrow> state \<Rightarrow> state" where
  "mark_up token s = s\<lparr>held := removeAll token (held s)\<rparr>"

text \<open>The body of the \<^verbatim>\<open>try\<close> in \<^verbatim>\<open>release_all\<close>, for one token.\<close>

definition release_token :: "env \<Rightarrow> string \<Rightarrow> state \<Rightarrow> outcome" where
  "release_token E t s =
     (case split1 CHR '':'' t of
        None \<Rightarrow> (Some ValueError, s)
      | Some (kind, val) \<Rightarrow>
          if kind = ''key'' then
            (if USE_PDI E then backend E (PDI_keyUp (to_pdi_key val)) s
             else (case parse_key_pynput E val of
                     Inl e \<Rightarrow> (Some e, s)
                   | Inr k \<Rightarrow> backend E (K_release k) s))
          else if kind = ''mouse'' then
            (if USE_PDI E then
               (case to_pdi_button val of
                  Inl e \<Rightarrow> (Some e, s)
                | Inr b \<Rightarrow> backend E (PDI_mouseUp b) s)
             else backend E (M_release (pynput_button val)) s)
          else (None, s))"

definition release_all :: "env \<Rightarrow> state \<Rightarrow> outcome" where
  "release_all E s =
     (let tokens = held s
      in for_each (\<lambda>t. try_pass (release_token E t)) tokens (s\<lparr>held := []\<rparr>))"

text \<open>The backend call that the sweep makes for a token, if it makes one.\<close>

definition release_call :: "env \<Rightarrow> string \<Rightarrow> call option" where
  "release_call E t =
     (case split1 CHR '':'' t of
        None \<Rightarrow> None
      | Some (kind, val) \<Rightarrow>
          if kind = ''key'' then
            (if USE_PDI E then Some (PDI_keyUp (to_pdi_key val))
             else (case parse_key_pynput E val of Inl e \<Rightarrow> None | Inr k \<Rightarrow> Some (K_release k)))
          else if kind = ''mouse'' then
            (if USE_PDI E then
               (case to_pdi_button val of Inl e \<Rightarrow> None | Inr b \<Rightarrow> Some (PDI_mouseUp b))
             else Some (M_release (pynput_button val)))
          else None)"

section \<open>The step executor\<close>

text \<open>\<^verbatim>\<open>int\<close> of a finite float \<open>m * 2 ^ e\<close>: the fraction is cut off, towards zero.\<close>

definition float_trunc :: "int \<Rightarrow> int \<Rightarrow> int" where
  "float_trunc m e =
     (if 0 \<le> e then m * 2 ^ nat e
      else if 0 \<le> m then m div 2 ^ nat (- e)
      else - ((- m) div 2 ^ nat (- e)))"

text \<open>\<^verbatim>\<open>int(v)\<close>.\<close>

definition py_int :: "env \<Rightarrow> pyval \<Rightarrow> error + int" where
  "py_int E v =
     (case v of
        VInt i \<Rightarrow> Inr i
      | VBool b \<Rightarrow> Inr (if b then 1 else 0)
      | VFloat f t \<Rightarrow>
          (case f of
             Finite m e \<Rightarrow> Inr (float_trunc m e)
           | NaN \<Rightarrow> Inl ValueError
           | _ \<Rightarrow> Inl OverflowError)
      | VStr s \<Rightarrow> (case int_of_str E s of None \<Rightarrow> Inl ValueError | Some i \<Rightarrow> Inr i)
      | _ \<Rightarrow> Inl TypeError)"

text \<open>\<^verbatim>\<open>[parse_key_pynput(rk) for rk in raw_keys]\<close>.\<close>

fun parse_keys :: "env \<Rightarrow> string list \<Rightarrow> error + keylike list" where
  "parse_keys E [] = Inr []"
| "parse_keys E (rk # rks) =
     (case parse_key_pynput E rk of
        Inl e \<Rightarrow> Inl e
      | Inr k \<Rightarrow> (case parse_keys E rks of Inl e \<Rightarrow> Inl e | Inr ks \<Rightarrow> Inr (k # ks)))"

definition do_text :: "env \<Rightarrow> pydict \<Rightarrow> state \<Rightarrow> outcome" where
  "do_text E step s =
     (let text = py_str (dget_default step ''text'' (VStr []))
      in if USE_PDI E then backend E (PDI_write text) s else backend E (K_type text) s)"

definition do_key :: "env \<Rightarrow> pydict \<Rightarrow> state \<Rightarrow> outcome" where
  "do_key E step s =
     (case map_of step ''key'' of
        None \<Rightarrow> (Some KeyError, s)
      | Some kv \<Rightarrow>
          (let raw = py_str kv;
               action = py_str (dget_default step ''action'' (VStr ''tap''))
           in if USE_PDI E then
                (let k = to_pdi_key raw; token = ''key:'' @ raw
                 in if action = ''tap'' then backend E (PDI_press k) s
                    else if action = ''press'' then
                      and_then (backend E (PDI_keyDown k) s) (\<lambda>s1. (None, mark_down token s1))
                    else if action = ''release'' then
                      and_then (backend E (PDI_keyUp k) s) (\<lambda>s1. (None, mark_up token s1))
                    else (Some ValueError, s))
              else
                (case parse_key_pynput E raw of
                   Inl e \<Rightarrow> (Some e, s)
                 | Inr key \<Rightarrow>
                     (let token = ''key:'' @ raw
                      in if action = ''tap'' then
                           and_then (backend E (K_press key) s) (backend E (K_release key))
                         else if action = ''press'' then
                           and_then (backend E (K_press key) s) (\<lambda>s1. (None, mark_down token s1))
                         else if action = ''release'' then
                           and_then (backend E (K_release key) s) (\<lambda>s1. (None, mark_up token s1))
                         else (Some ValueError, s)))))"

definition do_combo :: "env \<Rightarrow> pydict \<Rightarrow> state \<Rightarrow> outcome" where
  "do_combo E step s =
     (case py_iter (dget_default step ''keys'' (VList [])) of
        Inl e \<Rightarrow> (Some e, s)
      | Inr ks \<Rightarrow>
          (let raw_keys = map py_str ks
           in if raw_keys = [] then (None, s)
              else if USE_PDI E then
                and_then (for_each (\<lambda>rk. backend E (PDI_keyDown (to_pdi_key rk))) raw_keys s)
                  (for_each (\<lambda>rk. backend E (PDI_keyUp (to_pdi_key rk))) (rev raw_keys))
              else
                (case parse_keys E raw_keys of
                   Inl e \<Rightarrow> (Some e, s)
                 | Inr keys \<Rightarrow>
                     and_then (for_each (\<lambda>k. backend E (K_press k)) keys s)
                       (for_each (\<lambda>k. backend E (K_release k)) (rev keys)))))"

definition do_mouse_click :: "env \<Rightarrow> pydict \<Rightarrow> state \<Rightarrow> outcome" where
  "do_mouse_click E step s =
     (let button = py_str (dget_default step ''button'' (VStr ''left''))
      in case py_int E (dget_default step ''count'' (VInt 1)) of
           Inl e \<Rightarrow> (Some e, s)
         | Inr count \<Rightarrow>
             if USE_PDI E then
               (case to_pdi_button button of
                  Inl e \<Rightarrow> (Some e, s)
                | Inr b \<Rightarrow> backend E (PDI_click b (max 1 count)) s)
             else
               (let btn = pynput_button button
                in for_each (\<lambda>_. backend E (M_click btn)) [0..<nat (max 1 count)] s))"

definition do_mouse_button :: "env \<Rightarrow> pydict \<Rightarrow> state \<Rightarrow> outcome" where
  "do_mouse_button E step s =
     (let button = py_str (dget_default step ''button'' (VStr ''left''));
          action = py_str (dget_default step ''action'' (VStr ''tap''));
          token = ''mouse:'' @ button
      in if USE_PDI E then
           (case to_pdi_button button of
              Inl e \<Rightarrow> (Some e, s)
            | Inr b \<Rightarrow>
                if action = ''tap'' then backend E (PDI_click b 1) s
                else if action = ''press'' then
                  and_then (backend E (PDI_mouseDown b) s) (\<lambda>s1. (None, mark_down token s1))
                else if action = ''release'' then
                  and_then (backend E (PDI_mouseUp b) s) (\<lambda>s1. (None, mark_up token s1))
                else (Some ValueError, s))
         else
           (let btn = pynput_button button
            in if action = ''tap'' then backend E (M_click btn) s
               else if action = ''press'' then
                 and_then (backend E (M_press btn) s) (\<lambda>s1. (None, mark_down token s1))
               else if action = ''release'' then
                 and_then (backend E (M_release btn) s) (\<lambda>s1. (None, mark_up token s1))
               else (Some ValueError, s)))"

definition do_mouse_move :: "env \<Rightarrow> pydict \<Rightarrow> state \<Rightarrow> outcome" where
  "do_mouse_move E step s =
     (let mode = py_str (dget_default step ''mode'' (VStr ''relative''))
      in case py_int E (dget_default step ''x'' (VInt 0)) of
           Inl e \<Rightarrow> (Some e, s)
         | Inr x \<Rightarrow>
             (case py_int E (dget_default step ''y'' (VInt 0)) of
                Inl e \<Rightarrow> (Some e, s)
              | Inr y \<Rightarrow>
                  if USE_PDI E then
                    (if mode = ''relative'' then backend E (PDI_moveRel x y) s
                     else if mode = ''absolute'' then backend E (PDI_moveTo x y) s
                     else (Some ValueError, s))
                  else
                    (if mode = ''relative'' then backend E (M_move x y) s
                     else if mode = ''absolute'' then backend E (M_set_position x y) s
                     else (Some ValueError, s))))"

definition do_mouse_scroll :: "env \<Rightarrow> pydict \<Rightarrow> state \<Rightarrow> outcome" where
  "do_mouse_scroll E step s =
     (case py_int E (dget_default step ''dx'' (VInt 0)) of
        Inl e \<Rightarrow> (Some e, s)
      | Inr dx \<Rightarrow>
          (case py_int E (dget_default step ''dy'' (VInt 0)) of
             Inl e \<Rightarrow> (Some e, s)
           | Inr dy \<Rightarrow>
               if USE_PDI E then
                 (if dy \<noteq> 0 then backend E (PDI_scroll dy) s else (None, s))
               else backend E (M_scroll dx dy) s))"

text \<open>
  \<^verbatim>\<open>do_step(step, stop_event, hold)\<close>. A step that is not a \<^verbatim>\<open>dict\<close> has no
  \<^verbatim>\<open>get\<close>. A wait step only waits on the event: it changes nothing of the state.
\<close>

definition do_step :: "env \<Rightarrow> pyval \<Rightarrow> state \<Rightarrow> outcome" where
  "do_step E v s =
     (case v of
        VDict step \<Rightarrow>
          (let t = dget step ''type''
           in if t = VStr ''wait'' then
                (wait_raises E (dget_default step ''seconds'' (VInt 0)), s)
              else if stop_set s then (None, s)
              else if t = VStr ''text'' then do_text E step s
              else if t = VStr ''key'' then do_key E step s
              else if t = VStr ''combo'' then do_combo E step s
              else if t = VStr ''mouse_click'' then do_mouse_click E step s
              else if t = VStr ''mouse_button'' then do_mouse_button E step s
              else if t = VStr ''mouse_move'' then do_mouse_move E step s
              else if t = VStr ''mouse_scroll'' then do_mouse_scroll E step s
              else (Some ValueError, s))
      | _ \<Rightarrow> (Some AttributeError, s))"

section \<open>MacroTool\<close>

text \<open>
  The fields of \<^verbatim>\<open>MacroTool\<close>. \<open>shared\<close> holds \<^verbatim>\<open>stop_event\<close> and \<^verbatim>\<open>_hold\<close> (with
  the backend calls made so far). \<open>threads\<close> has one entry for every
  \<^verbatim>\<open>threading.Thread\<close> the tool has started, telling whether it is alive, and \<open>thread\<close>
  is the index of \<^verbatim>\<open>self.thread\<close> in it. The fields \<^verbatim>\<open>_down\<close> and \<^verbatim>\<open>_hotkeys\<close> of the
  listeners are left out.
\<close>

record tool =
  trigger_hotkey :: "string option"
  quit_hotkey :: "string option"
  trigger_key :: "keylike option"
  quit_key :: "keylike option"
  loop :: bool
  macro :: "pyval list"
  shared :: state
  thread :: "nat option"
  threads :: "bool list"

definition init_state :: state where
  "init_state = \<lparr>held = [], stop_set = False, log = []\<rparr>"

text \<open>\<^verbatim>\<open>parse_key_pynput(str(config[k])) if config.get(k) else None\<close>.\<close>

definition opt_key :: "env \<Rightarrow> pydict \<Rightarrow> string \<Rightarrow> error + keylike option" where
  "opt_key E config k =
     (if truthy (dget config k)
      then (case parse_key_pynput E (py_str (dget config k)) of
              Inl e \<Rightarrow> Inl e
            | Inr key \<Rightarrow> Inr (Some key))
      else Inr None)"

text \<open>\<^verbatim>\<open>str(config.get(k)).strip() if config.get(k) else None\<close>.\<close>

definition opt_hotkey :: "pydict \<Rightarrow> string \<Rightarrow> string option" where
  "opt_hotkey config k =
     (if truthy (dget config k) then Some (strip (py_str (dget config k))) else None)"

definition MacroTool_init :: "env \<Rightarrow> pydict \<Rightarrow> error + tool" where
  "MacroTool_init E config =
     (case opt_key E config ''trigger_key'' of
        Inl e \<Rightarrow> Inl e
      | Inr tk \<Rightarrow>
          (case opt_key E config ''quit_key'' of
             Inl e \<Rightarrow> Inl e
           | Inr qk \<Rightarrow>
               (case py_iter (dget_default config ''macro'' (VList [])) of
                  Inl e \<Rightarrow> Inl e
                | Inr steps \<Rightarrow>
                    Inr \<lparr>trigger_hotkey = opt_hotkey config ''trigger_hotkey'',
                         quit_hotkey = opt_hotkey config ''quit_hotkey'',
                         trigger_key = tk,
                         quit_key = qk,
                         loop = truthy (dget_default config ''loop'' (VBool False)),
                         macro = steps,
                         shared = init_state,
                         thread = None,
                         threads = []\<rparr>)))"

definition is_running :: "tool \<Rightarrow> bool" where
  "is_running T =
     (case thread T of None \<Rightarrow> False | Some i \<Rightarrow> i < length (threads T) \<and> threads T ! i)"

text \<open>\<^verbatim>\<open>start\<close>, run under \<^verbatim>\<open>self.lock\<close>: the new thread is alive from here on.\<close>

definition MacroTool_start :: "tool \<Rightarrow> tool" where
  "MacroTool_start T =
     (if is_running T then T
      else T\<lparr>shared := (shared T)\<lparr>stop_set := False\<rparr>,
             thread := Some (length (threads T)),
             threads := threads T @ [True]\<rparr>)"

definition MacroTool_stop :: "env \<Rightarrow> tool \<Rightarrow> error option \<times> tool" where
  "MacroTool_stop E T =
     (case release_all E ((shared T)\<lparr>stop_set := True\<rparr>) of
        (r, s1) \<Rightarrow> (r, T\<lparr>shared := s1\<rparr>))"

definition toggle :: "env \<Rightarrow> tool \<Rightarrow> error option \<times> tool" where
  "toggle E T = (if is_running T then MacroTool_stop E T else (None, MacroTool_start T))"

text \<open>The inner \<^verbatim>\<open>for step in self.macro\<close> of \<^verbatim>\<open>_run\<close>, with its \<^verbatim>\<open>break\<close>.\<close>

fun run_steps :: "env \<Rightarrow> pyval list \<Rightarrow> state \<Rightarrow> outcome" where
  "run_steps E [] s = (None, s)"
| "run_steps E (step # steps) s =
     (if stop_set s then (None, s) else and_then (do_step E step s) (run_steps E steps))"

text \<open>The \<^verbatim>\<open>while not self.stop_event.is_set()\<close> of \<^verbatim>\<open>_run\<close>; \<open>None\<close> when it never
  ends.\<close>

partial_function (option) run_loop :: "env \<Rightarrow> pyval list \<Rightarrow> state \<Rightarrow> outcome option" where
  "run_loop E steps s =
     (if stop_set s then Some (None, s)
      else (let r = run_steps E steps s
            in if fst r \<noteq> None then Some r else run_loop E steps (snd r)))"

declare run_loop.simps [code]

text \<open>The first \<open>n\<close> passes of that loop: like the loop, they end before \<open>n\<close> when the
  signal is set or a step raises.\<close>

fun run_passes :: "env \<Rightarrow> pyval list \<Rightarrow> nat \<Rightarrow> state \<Rightarrow> outcome" where
  "run_passes E steps 0 s = (None, s)"
| "run_passes E steps (Suc n) s =
     (if stop_set s then (None, s)
      else and_then (run_steps E steps s) (run_passes E steps n))"

text \<open>\<^verbatim>\<open>finally: fin\<close> after a body that ended with \<open>r\<close>: an error of \<open>fin\<close> replaces
  \<open>r\<close>; otherwise \<open>r\<close> goes on, so that an error of the body leaves the statement.\<close>

definition py_finally :: "error option \<Rightarrow> outcome \<Rightarrow> outcome" where
  "py_finally r fin = (case fin of (Some e, s) \<Rightarrow> (Some e, s) | (None, s) \<Rightarrow> (r, s))"

text \<open>\<^verbatim>\<open>_run\<close>, the target of the background thread, on the shared state.\<close>

definition MacroTool_run :: "env \<Rightarrow> tool \<Rightarrow> state \<Rightarrow> outcome option" where
  "MacroTool_run E T s =
     (case (if loop T then run_loop E (macro T) s else Some (run_steps E (macro T) s)) of
        None \<Rightarrow> None
      | Some (r, s1) \<Rightarrow> Some (py_finally r (release_all E s1)))"

text \<open>
  The background thread from its start to its end, with nothing of the control thread
  in between: it runs \<^verbatim>\<open>_run\<close>; when \<^verbatim>\<open>_run\<close> returns or raises, the thread is no
  longer alive. The first component is the exception that left \<^verbatim>\<open>_run\<close>.
\<close>

definition thread_main :: "env \<Rightarrow> tool \<Rightarrow> (error option \<times> tool) option" where
  "thread_main E T =
     (case MacroTool_run E T (shared T) of
        None \<Rightarrow> None
      | Some (r, s1) \<Rightarrow>
          Some (r, T\<lparr>shared := s1,
                     threads := (case thread T of
                                   None \<Rightarrow> threads T
                                 | Some i \<Rightarrow> (threads T)[i := False])\<rparr>))"

section \<open>Concrete environments\<close>

text \<open>Two environments on which the definitions are evaluated: the pynput backend and
  the pydirectinput backend, with no call raising.\<close>

definition env_pynput :: env where
  "env_pynput =
     \<lparr>USE_PDI = False,
      key_attr = (\<lambda>n. n \<in> {''ctrl'', ''shift'', ''alt'', ''enter''}),
      raises = (\<lambda>_ _. False),
      int_of_str = (\<lambda>_. None),
      wait_raises = (\<lambda>_. None)\<rparr>"


section \<open>The backend calls of a step\<close>

text \<open>The press call that a key or mouse-button step with action \<open>press\<close> makes, and
  the token it marks; \<open>None\<close> when the key or the button of the step does not
  resolve.\<close>

definition press_call :: "env \<Rightarrow> pydict \<Rightarrow> (call \<times> string) option" where
  "press_call E step =
     (if dget step ''type'' = VStr ''key'' then
        (case map_of step ''key'' of
           None \<Rightarrow> None
         | Some kv \<Rightarrow>
             if USE_PDI E then Some (PDI_keyDown (to_pdi_key (py_str kv)), ''key:'' @ py_str kv)
             else (case parse_key_pynput E (py_str kv) of
                     Inl e \<Rightarrow> None
                   | Inr k \<Rightarrow> Some (K_press k, ''key:'' @ py_str kv)))
      else
        (let button = py_str (dget_default step ''button'' (VStr ''left''))
         in if USE_PDI E then
              (case to_pdi_button button of
                 Inl e \<Rightarrow> None
               | Inr b \<Rightarrow> Some (PDI_mouseDown b, ''mouse:'' @ button))
            else Some (M_press (pynput_button button), ''mouse:'' @ button)))"

text \<open>The calls of a tap, for a key or mouse-button step: the backend's own tap or click
  where it has one, a press and a release of the key on pynput.\<close>

definition tap_calls :: "env \<Rightarrow> pydict \<Rightarrow> call list option" where
  "tap_calls E step =
     (if dget step ''type'' = VStr ''key'' then
        (case map_of step ''key'' of
           None \<Rightarrow> None
         | Some kv \<Rightarrow>
             if USE_PDI E then Some [PDI_press (to_pdi_key (py_str kv))]
             else (case parse_key_pynput E (py_str kv) of
                     Inl e \<Rightarrow> None
                   | Inr k \<Rightarrow> Some [K_press k, K_release k]))
      else
        (let button = py_str (dget_default step ''button'' (VStr ''left''))
         in if USE_PDI E then
              (case to_pdi_button button of
                 Inl e \<Rightarrow> None
               | Inr b \<Rightarrow> Some [PDI_click b 1])
            else Some [M_click (pynput_button button)]))"

text \<open>The calls of a combo step over the keys \<open>ks\<close>: the presses in the order of the
  keys, then the releases in the reverse order; an error when a key does not resolve on
  pynput.\<close>

definition combo_calls :: "env \<Rightarrow> pyval list \<Rightarrow> error + call list" where
  "combo_calls E ks =
     (if USE_PDI E then
        Inr (map (\<lambda>k. PDI_keyDown (to_pdi_key (py_str k))) ks
             @ map (\<lambda>k. PDI_keyUp (to_pdi_key (py_str k))) (rev ks))
      else
        (case parse_keys E (map py_str ks) of
           Inl e \<Rightarrow> Inl e
         | Inr keys \<Rightarrow> Inr (map K_press keys @ map K_release (rev keys))))"

section \<open>The runner as a transition system\<close>

text \<open>
  What can happen to a \<^verbatim>\<open>MacroTool\<close>, one event at a time: the control thread calls
  \<^verbatim>\<open>start\<close>, \<^verbatim>\<open>stop\<close> or \<^verbatim>\<open>toggle\<close>; the background thread changes the shared state
  (a backend call, a mark, its final sweep); a thread ends, because \<^verbatim>\<open>_run\<close> returned or
  raised. \<^verbatim>\<open>start\<close> runs under \<^verbatim>\<open>self.lock\<close>, so two calls of it never overlap; a thread
  that ends while \<^verbatim>\<open>start\<close> runs does so either before \<^verbatim>\<open>is_running\<close> is read or after
  it, which is the event before or after \<open>EvStart\<close> here.
\<close>

datatype event =
    EvStart
  | EvStop
  | EvToggle
  | EvBackground "state \<Rightarrow> state"
  | EvThreadEnds nat

definition apply_event :: "env \<Rightarrow> event \<Rightarrow> tool \<Rightarrow> tool" where
  "apply_event E ev T =
     (case ev of
        EvStart \<Rightarrow> MacroTool_start T
      | EvStop \<Rightarrow> snd (MacroTool_stop E T)
      | EvToggle \<Rightarrow> snd (toggle E T)
      | EvBackground f \<Rightarrow> T\<lparr>shared := f (shared T)\<rparr>
      | EvThreadEnds i \<Rightarrow> T\<lparr>threads := (threads T)[i := False]\<rparr>)"

fun run_events :: "env \<Rightarrow> event list \<Rightarrow> tool \<Rightarrow> tool" where
  "run_events E [] T = T"
| "run_events E (ev # evs) T = run_events E evs (apply_event E ev T)"

text \<open>The number of background threads that are alive.\<close>

definition alive_count :: "tool \<Rightarrow> nat" where
  "alive_count T = length (filter (\<lambda>b. b) (threads T))"

text \<open>Every thread but \<^verbatim>\<open>self.thread\<close> has ended.\<close>

definition one_thread :: "tool \<Rightarrow> bool" where
  "one_thread T =
     (case thread T of
        None \<Rightarrow> threads T = []
      | Some n \<Rightarrow> length (threads T) = Suc n \<and> take n (threads T) = replicate n False)"

text \<open>
  One interleaving of the two threads. The background thread is in a press step: it has
  made the backend press call \<open>c\<close> and has not yet called \<^verbatim>\<open>mark_down\<close>. The control
  thread now runs \<^verbatim>\<open>stop\<close>, whose sweep finds the token not yet held. Then the background
  thread goes on with \<^verbatim>\<open>hold.mark_down(token)\<close>.
\<close>

definition stop_during_press :: "env \<Rightarrow> call \<Rightarrow> string \<Rightarrow> tool \<Rightarrow> error option \<times> tool" where
  "stop_during_press E c token T =
     (case backend E c (shared T) of
        (Some e, s1) \<Rightarrow> (Some e, T\<lparr>shared := s1\<rparr>)
      | (None, s1) \<Rightarrow>
          (case MacroTool_stop E (T\<lparr>shared := s1\<rparr>) of
             (r, T1) \<Rightarrow> (r, T1\<lparr>shared := mark_down token (shared T1)\<rparr>)))"

section \<open>Concrete macro definitions\<close>

text \<open>A macro whose only step has an action outside \<open>tap\<close>, \<open>press\<close>, \<open>release\<close>.\<close>

definition config_bad_action :: pydict where
  "config_bad_action =
     [(''trigger_key'', VStr ''Key.enter''),
      (''macro'', VList [VDict [(''type'', VStr ''key''), (''key'', VStr ''a''),
                                (''action'', VStr ''hold'')]])]"

text \<open>A macro that presses a key and then has a step of an unknown type.\<close>

definition config_press_then_unknown :: pydict where
  "config_press_then_unknown =
     [(''trigger_key'', VStr ''Key.enter''),
      (''macro'', VList [VDict [(''type'', VStr ''key''), (''key'', VStr ''a''),
                                (''action'', VStr ''press'')],
                         VDict [(''type'', VStr ''dance'')]])]"

text \<open>A looping macro of one tap, and a backend whose fourth call and all later ones
  raise.\<close>

definition config_tap_loop :: pydict where
  "config_tap_loop =
     [(''trigger_key'', VStr ''Key.enter''),
      (''loop'', VBool True),
      (''macro'', VList [VDict [(''type'', VStr ''key''), (''key'', VStr ''a'')]])]"

definition env_fourth_call_raises :: env where
  "env_fourth_call_raises = env_pynput\<lparr>raises := (\<lambda>l c. 3 \<le> length l)\<rparr>"

text \<open>The step sequence as \<^verbatim>\<open>_run\<close> runs it, cut after \<open>n\<close> passes when the macro
  loops.\<close>

definition run_body :: "env \<Rightarrow> tool \<Rightarrow> nat \<Rightarrow> state \<Rightarrow> outcome" where
  "run_body E T n s =
     (if loop T then run_passes E (macro T) n s else run_steps E (macro T) s)"

section \<open>The release sweep\<close>

lemma release_token_snd:
  "snd (release_token E t s)
     = s\<lparr>log := log s @ (case release_call E t of None \<Rightarrow> [] | Some c \<Rightarrow> [c])\<rparr>"
  by (auto simp: release_token_def release_call_def backend_def split: option.splits sum.splits)

lemma sweep_eq:
  "for_each (\<lambda>t. try_pass (release_token E t)) ts s
     = (None, s\<lparr>log := log s @ List.map_filter (release_call E) ts\<rparr>)"
proof (induction ts arbitrary: s)
  case Nil
  show ?case by (simp add: List.map_filter_simps)
next
  case (Cons t ts)
  have step: "try_pass (release_token E t) s
     = (None, s\<lparr>log := log s @ (case release_call E t of None \<Rightarrow> [] | Some c \<Rightarrow> [c])\<rparr>)"
    by (simp add: try_pass_def release_token_snd)
  show ?case
    unfolding for_each.simps step and_then_def
    by (cases "release_call E t") (simp_all add: Cons List.map_filter_simps)
qed

lemma release_all_eq:
  "release_all E s
     = (None, s\<lparr>held := [], log := log s @ List.map_filter (release_call E) (held s)\<rparr>)"
  by (simp add: release_all_def sweep_eq)

lemma map_filter_all_some:
  "\<forall>x\<in>set xs. f x \<noteq> None \<Longrightarrow> length (List.map_filter f xs) = length xs"
  by (induction xs) (auto simp: List.map_filter_simps)

lemma map_filter_attempted:
  "t \<in> set ts \<Longrightarrow> f t = Some c \<Longrightarrow> c \<in> set (List.map_filter f ts)"
  by (induction ts) (auto simp: List.map_filter_simps split: option.splits)

lemma parse_key_pynput_raises:
  "parse_key_pynput (E\<lparr>raises := f\<rparr>) r = parse_key_pynput E r"
  by (simp add: parse_key_pynput_def Let_def)

lemma release_call_raises: "release_call (E\<lparr>raises := f\<rparr>) = release_call E"
  by (rule ext) (simp add: release_call_def parse_key_pynput_raises split: option.splits)

text \<open>
  C3. \<^verbatim>\<open>release_all\<close> is idempotent. With no held token it makes no backend call and
  changes nothing. Called on any state, it empties the held tokens and makes the release
  calls of the tokens that were held, in the order of the snapshot; called again right
  after, it makes no backend call at all: the state, and with it the record of the calls,
  stays as it is. When every held token has a release call (as every token that
  \<^verbatim>\<open>do_step\<close> marks has: \<open>do_step_releasable\<close>), that is one call for each token.
\<close>

theorem release_all_idempotent:
  "release_all E (s\<lparr>held := []\<rparr>) = (None, s\<lparr>held := []\<rparr>)
   \<and> release_all E (snd (release_all E s)) = (None, snd (release_all E s))
   \<and> held (snd (release_all E s)) = []
   \<and> log (snd (release_all E s)) = log s @ List.map_filter (release_call E) (held s)
   \<and> ((\<forall>t\<in>set (held s). release_call E t \<noteq> None) \<longrightarrow>
        length (log (snd (release_all E s))) = length (log s) + length (held s))"
  by (simp add: release_all_eq List.map_filter_simps map_filter_all_some)

theorem release_all_idempotent_witness:
  "log (snd (release_all env_pynput
       \<lparr>held = [''key:a'', ''mouse:left''], stop_set = False,
          log = [K_press (KeyChar CHR ''a'')]\<rparr>))
     = [K_press (KeyChar CHR ''a''), K_release (KeyChar CHR ''a''), M_release ButtonLeft]
   \<and> length (log (snd (release_all env_pynput
       \<lparr>held = [''key:a'', ''mouse:left''], stop_set = False,
          log = [K_press (KeyChar CHR ''a'')]\<rparr>))) = 3"
proof -
  let ?s = "\<lparr>held = [''key:a'', ''mouse:left''], stop_set = False,
              log = [K_press (KeyChar CHR ''a'')]\<rparr>"
  have c1: "release_call env_pynput ''key:a'' = Some (K_release (KeyChar CHR ''a''))"
    by code_simp
  have c2: "release_call env_pynput ''mouse:left'' = Some (M_release ButtonLeft)"
    by code_simp
  have ok: "\<forall>t\<in>set (held ?s). release_call env_pynput t \<noteq> None"
    by (simp add: c1 c2)
  from release_all_idempotent [of env_pynput ?s] ok
  have "log (snd (release_all env_pynput ?s))
          = log ?s @ List.map_filter (release_call env_pynput) (held ?s)"
    and "length (log (snd (release_all env_pynput ?s))) = length (log ?s) + length (held ?s)"
    by blast+
  then show ?thesis by (simp add: List.map_filter_simps c1 c2)
qed

text \<open>
  C4. Whatever backend calls raise, \<^verbatim>\<open>release_all\<close> itself raises nothing and empties
  the held tokens. The calls it attempts are the same under every failure behaviour
  \<open>f\<close> of the backend, so a release that raises stops no other release: the release
  call of every token that was held is among the calls attempted by the sweep.
\<close>

theorem release_all_swallows_failures:
  "fst (release_all E s) = None
   \<and> held (snd (release_all E s)) = []
   \<and> log (snd (release_all (E\<lparr>raises := f\<rparr>) s)) = log (snd (release_all E s))
   \<and> (\<forall>t\<in>set (held s). \<forall>c. release_call E t = Some c \<longrightarrow>
         c \<in> set (drop (length (log s)) (log (snd (release_all E s)))))"
  by (simp add: release_all_eq release_call_raises map_filter_attempted)

theorem release_all_swallows_failures_witness:
  "release_all (env_pynput\<lparr>raises := (\<lambda>_ _. True)\<rparr>)
       \<lparr>held = [''key:a'', ''mouse:left''], stop_set = True, log = []\<rparr>
     = (None, \<lparr>held = [], stop_set = True,
               log = [K_release (KeyChar CHR ''a''), M_release ButtonLeft]\<rparr>)
   \<and> M_release ButtonLeft
       \<in> set (log (snd (release_all (env_pynput\<lparr>raises := (\<lambda>_ _. True)\<rparr>)
                \<lparr>held = [''key:a'', ''mouse:left''], stop_set = True, log = []\<rparr>)))"
proof -
  let ?E = "env_pynput\<lparr>raises := (\<lambda>_ _. True)\<rparr>"
  let ?s = "\<lparr>held = [''key:a'', ''mouse:left''], stop_set = True, log = []\<rparr>"
  have c2: "release_call ?E ''mouse:left'' = Some (M_release ButtonLeft)"
    by code_simp
  have mem: "''mouse:left'' \<in> set (held ?s)"
    by simp
  have run: "release_all ?E ?s
     = (None, \<lparr>held = [], stop_set = True,
               log = [K_release (KeyChar CHR ''a''), M_release ButtonLeft]\<rparr>)"
    by code_simp
  from release_all_swallows_failures [of ?E ?s "raises ?E"] mem c2
  have "M_release ButtonLeft \<in> set (drop (length (log ?s)) (log (snd (release_all ?E ?s))))"
    by blast
  then show ?thesis using run by simp
qed

section \<open>Single steps\<close>

text \<open>
  C8. When the cancellation signal is set on entry, a step whose type is not \<open>wait\<close>
  is skipped: \<^verbatim>\<open>do_step\<close> returns without error and the state is the same, so no
  backend call has been made and the held tokens are unchanged.
\<close>

theorem cancelled_step_skipped:
  "stop_set s \<Longrightarrow> dget step ''type'' \<noteq> VStr ''wait'' \<Longrightarrow> do_step E (VDict step) s = (None, s)"
  by (simp add: do_step_def)

theorem cancelled_step_skipped_witness:
  "do_step env_pynput
      (VDict [(''type'', VStr ''key''), (''key'', VStr ''a''), (''action'', VStr ''press'')])
      \<lparr>held = [''mouse:left''], stop_set = True, log = []\<rparr>
     = (None, \<lparr>held = [''mouse:left''], stop_set = True, log = []\<rparr>)
   \<and> do_step env_pynput
      (VDict [(''type'', VStr ''key''), (''key'', VStr ''a''), (''action'', VStr ''press'')])
      \<lparr>held = [''mouse:left''], stop_set = False, log = []\<rparr>
     = (None, \<lparr>held = [''mouse:left'', ''key:a''], stop_set = False,
               log = [K_press (KeyChar CHR ''a'')]\<rparr>)"
proof -
  let ?step = "[(''type'', VStr ''key''), (''key'', VStr ''a''), (''action'', VStr ''press'')]"
  let ?s = "\<lparr>held = [''mouse:left''], stop_set = True, log = []\<rparr>"
  have ty: "dget ?step ''type'' \<noteq> VStr ''wait''"
    by (simp add: dget_def)
  have "stop_set ?s" by simp
  from cancelled_step_skipped [OF this ty, of env_pynput]
  have skipped: "do_step env_pynput (VDict ?step) ?s = (None, ?s)" .
  have run: "do_step env_pynput (VDict ?step)
        \<lparr>held = [''mouse:left''], stop_set = False, log = []\<rparr>
     = (None, \<lparr>held = [''mouse:left'', ''key:a''], stop_set = False,
               log = [K_press (KeyChar CHR ''a'')]\<rparr>)"
    by code_simp
  show ?thesis using skipped run by simp
qed

lemma do_key_press:
  assumes "dget step ''type'' = VStr ''key''"
    and "py_str (dget_default step ''action'' (VStr ''tap'')) = ''press''"
  shows "do_key E step s =
     (case press_call E step of
        None \<Rightarrow> (Some (if map_of step ''key'' = None then KeyError else ValueError), s)
      | Some (c, token) \<Rightarrow> and_then (backend E c s) (\<lambda>s1. (None, mark_down token s1)))"
  using assms
  by (simp add: do_key_def press_call_def Let_def parse_key_pynput_def
      split: option.split sum.split)

lemma do_mouse_button_press:
  assumes "dget step ''type'' = VStr ''mouse_button''"
    and "py_str (dget_default step ''action'' (VStr ''tap'')) = ''press''"
  shows "do_mouse_button E step s =
     (case press_call E step of
        None \<Rightarrow> (Some ValueError, s)
      | Some (c, token) \<Rightarrow> and_then (backend E c s) (\<lambda>s1. (None, mark_down token s1)))"
  using assms
  by (simp add: do_mouse_button_def press_call_def Let_def to_pdi_button_def
      split: option.split sum.split)

lemma backend_then_mark:
  "and_then (backend E c s) (\<lambda>s1. (None, mark_down token s1))
     = (if raises E (log s) c then (Some BackendError, s\<lparr>log := log s @ [c]\<rparr>)
        else (None, mark_down token (s\<lparr>log := log s @ [c]\<rparr>)))"
  by (simp add: and_then_def backend_def)

lemma do_step_press:
  assumes "dget step ''type'' = VStr ''key'' \<or> dget step ''type'' = VStr ''mouse_button''"
    and "py_str (dget_default step ''action'' (VStr ''tap'')) = ''press''"
    and "\<not> stop_set s"
  shows "do_step E (VDict step) s =
     (case press_call E step of
        None \<Rightarrow> (Some (if dget step ''type'' = VStr ''key'' \<and> map_of step ''key'' = None
                         then KeyError else ValueError), s)
      | Some (c, token) \<Rightarrow>
          if raises E (log s) c then (Some BackendError, s\<lparr>log := log s @ [c]\<rparr>)
          else (None, mark_down token (s\<lparr>log := log s @ [c]\<rparr>)))"
proof -
  from assms(1) show ?thesis
  proof
    assume k: "dget step ''type'' = VStr ''key''"
    then have "do_step E (VDict step) s = do_key E step s"
      using assms(3) by (simp add: do_step_def)
    then show ?thesis
      using k by (simp add: do_key_press [OF k assms(2)] backend_then_mark split: option.split)
  next
    assume m: "dget step ''type'' = VStr ''mouse_button''"
    then have "do_step E (VDict step) s = do_mouse_button E step s"
      using assms(3) by (simp add: do_step_def)
    then show ?thesis
      using m by (simp add: do_mouse_button_press [OF m assms(2)] backend_then_mark
          split: option.split)
  qed
qed

text \<open>
  C7. A key or mouse-button step with action \<open>press\<close>, run with the cancellation signal
  clear, makes the backend press call \<open>c\<close> of the step and only then marks the token
  down. When the press call raises, the step ends with that error, nothing is marked and
  the held tokens are as before; when it returns, the token is marked. When the key or
  button of the step does not resolve, no call is made and nothing is marked. In every
  case a step that raises leaves the held tokens unchanged.
\<close>

theorem press_marks_only_after_backend:
  assumes "dget step ''type'' = VStr ''key'' \<or> dget step ''type'' = VStr ''mouse_button''"
    and "py_str (dget_default step ''action'' (VStr ''tap'')) = ''press''"
    and "\<not> stop_set s"
  shows "(case press_call E step of
            None \<Rightarrow> fst (do_step E (VDict step) s) \<noteq> None \<and> snd (do_step E (VDict step) s) = s
          | Some (c, token) \<Rightarrow>
              do_step E (VDict step) s
                = (if raises E (log s) c then (Some BackendError, s\<lparr>log := log s @ [c]\<rparr>)
                   else (None, mark_down token (s\<lparr>log := log s @ [c]\<rparr>))))
         \<and> (fst (do_step E (VDict step) s) \<noteq> None \<longrightarrow>
              held (snd (do_step E (VDict step) s)) = held s)"
  by (simp add: do_step_press [OF assms] split: option.split)

theorem press_marks_only_after_backend_witness:
  "do_step (env_pynput\<lparr>raises := (\<lambda>_ _. True)\<rparr>)
      (VDict [(''type'', VStr ''key''), (''key'', VStr ''a''), (''action'', VStr ''press'')])
      \<lparr>held = [''mouse:left''], stop_set = False, log = []\<rparr>
     = (Some BackendError,
        \<lparr>held = [''mouse:left''], stop_set = False, log = [K_press (KeyChar CHR ''a'')]\<rparr>)"
proof -
  let ?E = "env_pynput\<lparr>raises := (\<lambda>_ _. True)\<rparr>"
  let ?step = "[(''type'', VStr ''key''), (''key'', VStr ''a''), (''action'', VStr ''press'')]"
  let ?s = "\<lparr>held = [''mouse:left''], stop_set = False, log = []\<rparr>"
  have ty: "dget ?step ''type'' = VStr ''key'' \<or> dget ?step ''type'' = VStr ''mouse_button''"
    by (simp add: dget_def)
  have act: "py_str (dget_default ?step ''action'' (VStr ''tap'')) = ''press''"
    by (simp add: dget_default_def py_str_def)
  have run: "\<not> stop_set ?s"
    by simp
  have pc: "press_call ?E ?step = Some (K_press (KeyChar CHR ''a''), ''key:a'')"
    by code_simp
  have fails: "raises ?E (log ?s) (K_press (KeyChar CHR ''a''))"
    by simp
  from press_marks_only_after_backend [OF ty act run, of ?E] show ?thesis
    by (simp add: pc)
qed

lemma and_then_return: "and_then r (\<lambda>s. (None, s)) = r"
  by (cases r) (simp add: and_then_def split: option.split)

lemma and_then_nil: "and_then r (for_each body []) = r"
  by (cases r) (simp add: and_then_def split: option.split)

lemma for_each_one: "for_each body [a] s = body a s"
  by (cases "body a s") (simp add: and_then_def split: option.split)

lemma for_each_two: "for_each body [a, b] s = and_then (body a s) (body b)"
proof -
  have "for_each body [b] = body b"
    by (rule ext) (rule for_each_one)
  then show ?thesis
    by (simp del: for_each.simps add: for_each.simps(2) [of body a "[b]"])
qed

lemma for_each_held:
  assumes "\<And>x s. held (snd (body x s)) = held s"
  shows "held (snd (for_each body xs s)) = held s"
proof (induction xs arbitrary: s)
  case Nil
  show ?case by simp
next
  case (Cons x xs)
  obtain r s1 where b: "body x s = (r, s1)"
    by (cases "body x s")
  with assms [of x s] have h: "held s1 = held s"
    by simp
  show ?case
    by (cases r) (simp_all add: and_then_def b h Cons)
qed

lemma backend_held: "held (snd (backend E c s)) = held s"
  by (simp add: backend_def)

lemma for_each_backend_held: "held (snd (for_each (\<lambda>x. backend E (g x)) xs s)) = held s"
  by (rule for_each_held) (rule backend_held)

lemma parse_key_pynput_error: "parse_key_pynput E r = Inl e \<Longrightarrow> e = ValueError"
  by (simp add: parse_key_pynput_def Let_def split: if_splits)

lemma to_pdi_button_error: "to_pdi_button b = Inl e \<Longrightarrow> e = ValueError"
  by (simp add: to_pdi_button_def Let_def split: if_splits)

lemma do_key_tap:
  assumes "dget step ''type'' = VStr ''key''"
    and "py_str (dget_default step ''action'' (VStr ''tap'')) = ''tap''"
  shows "do_key E step s =
     (case tap_calls E step of
        None \<Rightarrow> (Some (if map_of step ''key'' = None then KeyError else ValueError), s)
      | Some cs \<Rightarrow> for_each (\<lambda>c. backend E c) cs s)"
  using assms
  by (auto simp add: do_key_def tap_calls_def Let_def for_each_one for_each_two
      simp del: for_each.simps split: option.split sum.split dest: parse_key_pynput_error)

lemma do_mouse_button_tap:
  assumes "dget step ''type'' = VStr ''mouse_button''"
    and "py_str (dget_default step ''action'' (VStr ''tap'')) = ''tap''"
  shows "do_mouse_button E step s =
     (case tap_calls E step of
        None \<Rightarrow> (Some ValueError, s)
      | Some cs \<Rightarrow> for_each (\<lambda>c. backend E c) cs s)"
  using assms
  by (auto simp add: do_mouse_button_def tap_calls_def Let_def for_each_one
      simp del: for_each.simps split: option.split sum.split dest: to_pdi_button_error)

lemma do_step_tap:
  assumes "dget step ''type'' = VStr ''key'' \<or> dget step ''type'' = VStr ''mouse_button''"
    and "py_str (dget_default step ''action'' (VStr ''tap'')) = ''tap''"
    and "\<not> stop_set s"
  shows "do_step E (VDict step) s =
     (case tap_calls E step of
        None \<Rightarrow> (Some (if dget step ''type'' = VStr ''key'' \<and> map_of step ''key'' = None
                         then KeyError else ValueError), s)
      | Some cs \<Rightarrow> for_each (\<lambda>c. backend E c) cs s)"
proof -
  from assms(1) show ?thesis
  proof
    assume k: "dget step ''type'' = VStr ''key''"
    then have "do_step E (VDict step) s = do_key E step s"
      using assms(3) by (simp add: do_step_def)
    then show ?thesis
      using k by (simp add: do_key_tap [OF k assms(2)] split: option.split)
  next
    assume m: "dget step ''type'' = VStr ''mouse_button''"
    then have "do_step E (VDict step) s = do_mouse_button E step s"
      using assms(3) by (simp add: do_step_def)
    then show ?thesis
      using m by (simp add: do_mouse_button_tap [OF m assms(2)] split: option.split)
  qed
qed

lemma do_step_action_default:
  assumes "map_of step ''action'' = None"
  shows "do_step E (VDict ((''action'', VStr ''tap'') # step)) s = do_step E (VDict step) s"
proof -
  have g: "dget ((''action'', VStr ''tap'') # step) k = dget step k" if "k \<noteq> ''action''" for k
    using that by (simp add: dget_def)
  have d: "dget_default ((''action'', VStr ''tap'') # step) k v = dget_default step k v"
    if "k \<noteq> ''action''" for k v
    using that by (simp add: dget_default_def)
  have a: "dget_default ((''action'', VStr ''tap'') # step) ''action'' (VStr ''tap'')
             = dget_default step ''action'' (VStr ''tap'')"
    using assms by (simp add: dget_default_def)
  have m: "map_of ((''action'', VStr ''tap'') # step) ''key'' = map_of step ''key''"
    by simp
  show ?thesis
    unfolding do_step_def do_text_def do_key_def do_combo_def do_mouse_click_def
      do_mouse_button_def do_mouse_move_def do_mouse_scroll_def pyval.case
    by (simp only: g d a m list.inject char.inject simp_thms)
qed

text \<open>
  C10. A key or mouse-button step with no \<open>action\<close> field is run exactly as the same
  step with \<open>action\<close> set to \<open>tap\<close>. It leaves the held tokens unchanged, and with the
  cancellation signal clear it makes the calls of a tap, one after the other until one
  raises: a press and then a release of the key on pynput, the backend's own tap or
  single click otherwise.
\<close>

theorem missing_action_is_tap:
  assumes "dget step ''type'' = VStr ''key'' \<or> dget step ''type'' = VStr ''mouse_button''"
    and "map_of step ''action'' = None"
  shows "do_step E (VDict step) s = do_step E (VDict ((''action'', VStr ''tap'') # step)) s
         \<and> held (snd (do_step E (VDict step) s)) = held s
         \<and> (\<not> stop_set s \<longrightarrow>
              do_step E (VDict step) s =
                (case tap_calls E step of
                   None \<Rightarrow> (Some (if dget step ''type'' = VStr ''key'' \<and> map_of step ''key'' = None
                                    then KeyError else ValueError), s)
                 | Some cs \<Rightarrow> for_each (\<lambda>c. backend E c) cs s))"
proof -
  have act: "py_str (dget_default step ''action'' (VStr ''tap'')) = ''tap''"
    using assms(2) by (simp add: dget_default_def py_str_def)
  have ty: "dget step ''type'' \<noteq> VStr ''wait''"
    using assms(1) by auto
  have tap: "do_step E (VDict step) s =
      (case tap_calls E step of
         None \<Rightarrow> (Some (if dget step ''type'' = VStr ''key'' \<and> map_of step ''key'' = None
                          then KeyError else ValueError), s)
       | Some cs \<Rightarrow> for_each (\<lambda>c. backend E c) cs s)" if "\<not> stop_set s"
    using do_step_tap [OF assms(1) act that] .
  have unchanged: "held (snd (do_step E (VDict step) s)) = held s"
  proof (cases "stop_set s")
    case True
    then show ?thesis
      by (simp add: do_step_def ty)
  next
    case False
    show ?thesis
      unfolding tap [OF False]
      by (cases "tap_calls E step") (simp_all add: for_each_held backend_held)
  qed
  show ?thesis
    using tap unchanged by (simp add: do_step_action_default [OF assms(2)])
qed

theorem missing_action_is_tap_witness:
  "do_step env_pynput (VDict [(''type'', VStr ''key''), (''key'', VStr ''a'')])
      \<lparr>held = [''mouse:left''], stop_set = False, log = []\<rparr>
     = (None, \<lparr>held = [''mouse:left''], stop_set = False,
               log = [K_press (KeyChar CHR ''a''), K_release (KeyChar CHR ''a'')]\<rparr>)
   \<and> do_step env_pynput
        (VDict [(''action'', VStr ''tap''), (''type'', VStr ''key''), (''key'', VStr ''a'')])
        \<lparr>held = [''mouse:left''], stop_set = False, log = []\<rparr>
     = (None, \<lparr>held = [''mouse:left''], stop_set = False,
               log = [K_press (KeyChar CHR ''a''), K_release (KeyChar CHR ''a'')]\<rparr>)"
proof -
  let ?step = "[(''type'', VStr ''key''), (''key'', VStr ''a'')]"
  let ?s = "\<lparr>held = [''mouse:left''], stop_set = False, log = []\<rparr>"
  have ty: "dget ?step ''type'' = VStr ''key'' \<or> dget ?step ''type'' = VStr ''mouse_button''"
    by (simp add: dget_def)
  have noact: "map_of ?step ''action'' = None"
    by simp
  have tc: "tap_calls env_pynput ?step
              = Some [K_press (KeyChar CHR ''a''), K_release (KeyChar CHR ''a'')]"
    by code_simp
  have calls: "for_each (\<lambda>c. backend env_pynput c)
                 [K_press (KeyChar CHR ''a''), K_release (KeyChar CHR ''a'')] ?s
     = (None, \<lparr>held = [''mouse:left''], stop_set = False,
               log = [K_press (KeyChar CHR ''a''), K_release (KeyChar CHR ''a'')]\<rparr>)"
    by code_simp
  note tap = missing_action_is_tap [OF ty noact, of env_pynput ?s]
  have run: "do_step env_pynput (VDict ?step) ?s
     = (None, \<lparr>held = [''mouse:left''], stop_set = False,
               log = [K_press (KeyChar CHR ''a''), K_release (KeyChar CHR ''a'')]\<rparr>)"
    using tap [THEN conjunct2, THEN conjunct2] by (simp del: for_each.simps add: tc calls)
  have same: "do_step env_pynput (VDict ((''action'', VStr ''tap'') # ?step)) ?s
      = do_step env_pynput (VDict ?step) ?s"
    using tap [THEN conjunct1] by (rule sym)
  show ?thesis
    by (simp only: same run simp_thms)
qed

lemma for_each_append:
  "for_each body (xs @ ys) s = and_then (for_each body xs s) (for_each body ys)"
proof (induction xs arbitrary: s)
  case Nil
  show ?case by (simp add: and_then_def)
next
  case (Cons x xs)
  show ?case
    by (cases "body x s") (simp add: and_then_def Cons split: option.split)
qed

lemma for_each_map: "for_each body (map g xs) = for_each (\<lambda>x. body (g x)) xs"
proof
  fix s
  show "for_each body (map g xs) s = for_each (\<lambda>x. body (g x)) xs s"
    by (induction xs arbitrary: s) (simp_all add: and_then_def split: prod.split option.split)
qed

lemma for_each_backend_ok:
  assumes "\<forall>l c. \<not> raises E l c"
  shows "for_each (\<lambda>c. backend E c) cs s = (None, s\<lparr>log := log s @ cs\<rparr>)"
proof (induction cs arbitrary: s)
  case Nil
  show ?case by simp
next
  case (Cons c cs)
  have b: "backend E c s = (None, s\<lparr>log := log s @ [c]\<rparr>)"
    using assms by (simp add: backend_def)
  show ?case
    unfolding for_each.simps b and_then_def by (simp add: Cons)
qed

lemma do_combo_calls:
  assumes "py_iter (dget_default step ''keys'' (VList [])) = Inr ks"
  shows "do_combo E step s =
     (case combo_calls E ks of Inl e \<Rightarrow> (Some e, s) | Inr cs \<Rightarrow> for_each (\<lambda>c. backend E c) cs s)"
proof (cases "ks = []")
  case True
  then show ?thesis
    using assms by (simp add: do_combo_def combo_calls_def)
next
  case False
  then show ?thesis
    using assms
    by (simp add: do_combo_def combo_calls_def for_each_append for_each_map rev_map split: sum.split)
qed

text \<open>
  C5. A combo step over the keys \<open>ks\<close>, run with the cancellation signal clear, makes
  the calls of \<open>combo_calls\<close> one after the other until one raises: the presses of the
  keys in their order, then the releases in the reverse order. With no call raising, the
  record of calls grows by exactly these presses and releases. When a key does not
  resolve on pynput, the step raises before any call. The held tokens are never changed.
\<close>

theorem combo_press_then_reverse_release:
  assumes "dget step ''type'' = VStr ''combo''"
    and "\<not> stop_set s"
    and "py_iter (dget_default step ''keys'' (VList [])) = Inr ks"
  shows "do_step E (VDict step) s =
           (case combo_calls E ks of
              Inl e \<Rightarrow> (Some e, s)
            | Inr cs \<Rightarrow> for_each (\<lambda>c. backend E c) cs s)
         \<and> held (snd (do_step E (VDict step) s)) = held s
         \<and> (USE_PDI E \<longrightarrow>
              combo_calls E ks =
                Inr (map (\<lambda>k. PDI_keyDown (to_pdi_key (py_str k))) ks
                     @ map (\<lambda>k. PDI_keyUp (to_pdi_key (py_str k))) (rev ks)))
         \<and> (\<not> USE_PDI E \<longrightarrow>
              (\<forall>keys. parse_keys E (map py_str ks) = Inr keys \<longrightarrow>
                 combo_calls E ks = Inr (map K_press keys @ map K_release (rev keys))))
         \<and> ((\<forall>l c. \<not> raises E l c) \<longrightarrow>
              (\<forall>cs. combo_calls E ks = Inr cs \<longrightarrow>
                 do_step E (VDict step) s = (None, s\<lparr>log := log s @ cs\<rparr>)))"
proof -
  have run: "do_step E (VDict step) s =
      (case combo_calls E ks of
         Inl e \<Rightarrow> (Some e, s)
       | Inr cs \<Rightarrow> for_each (\<lambda>c. backend E c) cs s)"
    using assms(1,2) by (simp add: do_step_def do_combo_calls [OF assms(3)])
  have unchanged: "held (snd (do_step E (VDict step) s)) = held s"
    unfolding run by (cases "combo_calls E ks") (simp_all add: for_each_held backend_held)
  have quiet: "do_step E (VDict step) s = (None, s\<lparr>log := log s @ cs\<rparr>)"
    if "\<forall>l c. \<not> raises E l c" and "combo_calls E ks = Inr cs" for cs
    unfolding run using that by (simp add: for_each_backend_ok)
  show ?thesis
    using run unchanged quiet by (simp add: combo_calls_def)
qed

theorem combo_press_then_reverse_release_witness:
  "do_step env_pynput
      (VDict [(''type'', VStr ''combo''),
              (''keys'', VList [VStr ''Key.ctrl'', VStr ''Key.shift'', VStr ''a''])])
      \<lparr>held = [''mouse:left''], stop_set = False, log = []\<rparr>
     = (None, \<lparr>held = [''mouse:left''], stop_set = False,
               log = [K_press (KeyAttr ''ctrl''), K_press (KeyAttr ''shift''),
                      K_press (KeyChar CHR ''a''), K_release (KeyChar CHR ''a''),
                      K_release (KeyAttr ''shift''), K_release (KeyAttr ''ctrl'')]\<rparr>)"
proof -
  let ?ks = "[VStr ''Key.ctrl'', VStr ''Key.shift'', VStr ''a'']"
  let ?step = "[(''type'', VStr ''combo''), (''keys'', VList ?ks)]"
  let ?s = "\<lparr>held = [''mouse:left''], stop_set = False, log = []\<rparr>"
  have ty: "dget ?step ''type'' = VStr ''combo''"
    by (simp add: dget_def)
  have run: "\<not> stop_set ?s"
    by simp
  have it: "py_iter (dget_default ?step ''keys'' (VList [])) = Inr ?ks"
    by (simp add: dget_default_def py_iter_def)
  have quiet: "\<forall>l c. \<not> raises env_pynput l c"
    by (simp add: env_pynput_def)
  have cc: "combo_calls env_pynput ?ks
      = Inr [K_press (KeyAttr ''ctrl''), K_press (KeyAttr ''shift''),
             K_press (KeyChar CHR ''a''), K_release (KeyChar CHR ''a''),
             K_release (KeyAttr ''shift''), K_release (KeyAttr ''ctrl'')]"
    by code_simp
  from combo_press_then_reverse_release [OF ty run it, of env_pynput] quiet cc
  have "do_step env_pynput (VDict ?step) ?s
      = (None, ?s\<lparr>log := log ?s @ [K_press (KeyAttr ''ctrl''), K_press (KeyAttr ''shift''),
             K_press (KeyChar CHR ''a''), K_release (KeyChar CHR ''a''),
             K_release (KeyAttr ''shift''), K_release (KeyAttr ''ctrl'')]\<rparr>)"
    by blast
  then show ?thesis
    by simp
qed

section \<open>Held tokens have a release call\<close>

text \<open>Every token that a step marks has a release call in the sweep, so the tokens held
  in a run are released one call each.\<close>

lemma release_call_key:
  "release_call E (CHR ''k'' # CHR ''e'' # CHR ''y'' # CHR '':'' # raw)
     = (if USE_PDI E then Some (PDI_keyUp (to_pdi_key raw))
        else (case parse_key_pynput E raw of Inl e \<Rightarrow> None | Inr k \<Rightarrow> Some (K_release k)))"
  by (simp add: release_call_def split1_def)

lemma release_call_mouse:
  "release_call E (CHR ''m'' # CHR ''o'' # CHR ''u'' # CHR ''s'' # CHR ''e'' # CHR '':'' # b)
     = (if USE_PDI E then
          (case to_pdi_button b of Inl e \<Rightarrow> None | Inr b' \<Rightarrow> Some (PDI_mouseUp b'))
        else Some (M_release (pynput_button b)))"
  by (simp add: release_call_def split1_def)

lemma press_call_releasable:
  assumes "press_call E step = Some (c, token)"
  shows "release_call E token \<noteq> None"
  using assms
  by (auto simp: press_call_def release_call_key release_call_mouse Let_def
      split: if_splits option.splits sum.splits)

lemma backend_then_held:
  "held (snd (and_then (backend E c s) (\<lambda>s1. (None, f s1))))
     = (if raises E (log s) c then held s else held (f (s\<lparr>log := log s @ [c]\<rparr>)))"
  by (simp add: and_then_def backend_def)

lemma backend_then_backend_held:
  "held (snd (and_then (backend E c s) (backend E c'))) = held s"
  by (simp add: and_then_def backend_def)

lemma do_key_releasable:
  assumes "\<forall>t\<in>set (held s). release_call E t \<noteq> None"
  shows "\<forall>t\<in>set (held (snd (do_key E step s))). release_call E t \<noteq> None"
  using assms
  by (auto simp: do_key_def Let_def backend_then_held backend_then_backend_held backend_held
        mark_down_def mark_up_def release_call_key
      split: option.splits sum.splits if_splits)

lemma do_mouse_button_releasable:
  assumes "\<forall>t\<in>set (held s). release_call E t \<noteq> None"
  shows "\<forall>t\<in>set (held (snd (do_mouse_button E step s))). release_call E t \<noteq> None"
  using assms
  by (auto simp: do_mouse_button_def Let_def backend_then_held backend_held
        mark_down_def mark_up_def release_call_mouse
      split: option.splits sum.splits if_splits)

lemma and_then_for_each_held:
  assumes "\<And>x s. held (snd (body x s)) = held s"
    and "\<And>x s. held (snd (body' x s)) = held s"
  shows "held (snd (and_then (for_each body xs s) (for_each body' ys))) = held s"
proof (cases "for_each body xs s")
  case (Pair r s1)
  have "held s1 = held s"
    using for_each_held [of body xs s, OF assms(1)] Pair by simp
  then show ?thesis
    using Pair for_each_held [of body' ys s1, OF assms(2)]
    by (cases r) (simp_all add: and_then_def)
qed

lemma do_text_held: "held (snd (do_text E step s)) = held s"
  by (simp add: do_text_def Let_def backend_held)

lemma do_combo_held: "held (snd (do_combo E step s)) = held s"
  by (simp add: do_combo_def Let_def and_then_for_each_held backend_held
      split: sum.split)

lemma do_mouse_click_held: "held (snd (do_mouse_click E step s)) = held s"
  by (simp add: do_mouse_click_def Let_def for_each_held backend_held split: sum.split)

lemma do_mouse_move_held: "held (snd (do_mouse_move E step s)) = held s"
  by (simp add: do_mouse_move_def Let_def backend_held split: sum.split)

lemma do_mouse_scroll_held: "held (snd (do_mouse_scroll E step s)) = held s"
  by (simp add: do_mouse_scroll_def Let_def backend_held split: sum.split)

lemma do_step_releasable:
  assumes "\<forall>t\<in>set (held s). release_call E t \<noteq> None"
  shows "\<forall>t\<in>set (held (snd (do_step E v s))). release_call E t \<noteq> None"
proof (cases v)
  case (VDict step)
  show ?thesis
    unfolding VDict do_step_def pyval.case Let_def
    using assms do_key_releasable [OF assms, of step]
      do_mouse_button_releasable [OF assms, of step]
    by (simp add: do_text_held do_combo_held do_mouse_click_held do_mouse_move_held
        do_mouse_scroll_held)
qed (use assms in \<open>simp_all add: do_step_def\<close>)

lemma run_steps_releasable:
  assumes "\<forall>t\<in>set (held s). release_call E t \<noteq> None"
  shows "\<forall>t\<in>set (held (snd (run_steps E steps s))). release_call E t \<noteq> None"
  using assms
proof (induction steps arbitrary: s)
  case Nil
  then show ?case by simp
next
  case (Cons step steps)
  obtain r s1 where d: "do_step E step s = (r, s1)"
    by (cases "do_step E step s")
  have ok1: "\<forall>t\<in>set (held s1). release_call E t \<noteq> None"
    using do_step_releasable [OF Cons.prems, of step] d by simp
  show ?case
    using Cons.prems ok1 Cons.IH [OF ok1] d
    by (cases r) (simp_all add: and_then_def)
qed

section \<open>Construction and validation\<close>




lemma MacroTool_init_macro:
  assumes "MacroTool_init E config = Inr T"
  shows "py_iter (dget_default config ''macro'' (VList [])) = Inr (macro T)
         \<and> shared T = init_state \<and> thread T = None \<and> threads T = []"
  using assms by (auto simp: MacroTool_init_def split: sum.splits)




section \<open>Threads\<close>

lemma one_thread_threads:
  assumes "one_thread T" and "thread T = Some n"
  shows "threads T = replicate n False @ [threads T ! n]"
proof -
  from assms have len: "length (threads T) = Suc n" and tk: "take n (threads T) = replicate n False"
    by (simp_all add: one_thread_def)
  have "threads T = take n (threads T) @ drop n (threads T)"
    by simp
  moreover have "drop n (threads T) = [threads T ! n]"
    using len by (metis Cons_nth_drop_Suc drop_all lessI order_refl)
  ultimately show ?thesis
    using tk by simp
qed

lemma alive_count_running:
  assumes "one_thread T"
  shows "alive_count T = (if is_running T then 1 else 0)"
proof (cases "thread T")
  case None
  with assms show ?thesis
    by (simp add: one_thread_def alive_count_def is_running_def)
next
  case (Some n)
  from one_thread_threads [OF assms Some]
  have th: "threads T = replicate n False @ [threads T ! n]" .
  have len: "length (threads T) = Suc n"
    using assms Some by (simp add: one_thread_def)
  have "alive_count T = length (filter (\<lambda>b. b) (replicate n False @ [threads T ! n]))"
    unfolding alive_count_def using th by simp
  then show ?thesis
    using Some len by (simp add: is_running_def)
qed

lemma one_thread_start: "one_thread T \<Longrightarrow> one_thread (MacroTool_start T)"
proof -
  assume inv: "one_thread T"
  show ?thesis
  proof (cases "is_running T")
    case True
    with inv show ?thesis by (simp add: MacroTool_start_def)
  next
    case False
    show ?thesis
    proof (cases "thread T")
      case None
      with inv False show ?thesis
        by (simp add: MacroTool_start_def one_thread_def)
    next
      case (Some n)
      have len: "length (threads T) = Suc n"
        using inv Some by (simp add: one_thread_def)
      have "\<not> threads T ! n"
        using False Some len by (simp add: is_running_def)
      with one_thread_threads [OF inv Some] have "threads T = replicate (Suc n) False"
        by (simp add: replicate_append_same)
      then show ?thesis
        using False by (simp add: MacroTool_start_def one_thread_def)
    qed
  qed
qed

lemma MacroTool_stop_threads:
  "thread (snd (MacroTool_stop E T)) = thread T \<and> threads (snd (MacroTool_stop E T)) = threads T"
  by (simp add: MacroTool_stop_def split: prod.split)

lemma one_thread_stop: "one_thread T \<Longrightarrow> one_thread (snd (MacroTool_stop E T))"
  by (simp add: one_thread_def MacroTool_stop_threads split: option.splits)

lemma one_thread_ends: "one_thread T \<Longrightarrow> one_thread (T\<lparr>threads := (threads T)[i := False]\<rparr>)"
proof (cases "thread T")
  case None
  assume "one_thread T"
  with None show ?thesis by (simp add: one_thread_def)
next
  case (Some n)
  assume inv: "one_thread T"
  have tk: "take n ((threads T)[i := False]) = replicate n False"
  proof (cases "i < n")
    case True
    have "take n ((threads T)[i := False]) = (take n (threads T))[i := False]"
      by (simp add: take_update_swap)
    also have "\<dots> = (replicate n False)[i := False]"
      using inv Some by (simp add: one_thread_def)
    also have "\<dots> = replicate n False"
      using True by (simp add: list_update_same_conv)
    finally show ?thesis .
  next
    case False
    then show ?thesis
      using inv Some by (simp add: one_thread_def)
  qed
  show ?thesis
    using inv Some tk by (simp add: one_thread_def)
qed

lemma one_thread_event: "one_thread T \<Longrightarrow> one_thread (apply_event E ev T)"
proof (cases ev)
  case EvStart
  assume "one_thread T"
  with EvStart show ?thesis by (simp add: apply_event_def one_thread_start)
next
  case EvStop
  assume "one_thread T"
  with EvStop show ?thesis by (simp add: apply_event_def one_thread_stop)
next
  case EvToggle
  assume "one_thread T"
  with EvToggle show ?thesis
    by (simp add: apply_event_def toggle_def one_thread_stop one_thread_start)
next
  case (EvBackground f)
  assume "one_thread T"
  with EvBackground show ?thesis
    by (simp add: apply_event_def one_thread_def split: option.splits)
next
  case (EvThreadEnds i)
  assume "one_thread T"
  with EvThreadEnds show ?thesis by (simp add: apply_event_def one_thread_ends)
qed

lemma one_thread_events: "one_thread T \<Longrightarrow> one_thread (run_events E evs T)"
  by (induction evs arbitrary: T) (simp_all add: one_thread_event)

lemma one_thread_init: "MacroTool_init E config = Inr T \<Longrightarrow> one_thread T"
  by (simp add: one_thread_def MacroTool_init_macro)

text \<open>
  C9. \<^verbatim>\<open>start\<close> does nothing when the runner is running; otherwise it clears the
  cancellation signal and starts exactly one thread. Hence, from the construction of the
  tool on and after any sequence of events (calls of \<^verbatim>\<open>start\<close>, \<^verbatim>\<open>stop\<close> and
  \<^verbatim>\<open>toggle\<close>, steps of the background thread, threads ending on their own at any
  point in between), at most one background thread is alive: exactly one when
  \<^verbatim>\<open>is_running\<close> holds and none otherwise.
\<close>

theorem at_most_one_background_thread:
  assumes "MacroTool_init E config = Inr T0"
    and "T = run_events E evs T0"
  shows "alive_count T \<le> 1
         \<and> alive_count T = (if is_running T then 1 else 0)
         \<and> (is_running T \<longrightarrow> MacroTool_start T = T)
         \<and> (\<not> is_running T \<longrightarrow>
              threads (MacroTool_start T) = threads T @ [True]
              \<and> \<not> stop_set (shared (MacroTool_start T))
              \<and> is_running (MacroTool_start T)
              \<and> alive_count (MacroTool_start T) = 1)"
proof -
  have inv: "one_thread T"
    using assms by (simp add: one_thread_init one_thread_events)
  have count: "alive_count T = (if is_running T then 1 else 0)"
    using inv by (rule alive_count_running)
  have started: "threads (MacroTool_start T) = threads T @ [True]
      \<and> \<not> stop_set (shared (MacroTool_start T))
      \<and> is_running (MacroTool_start T)
      \<and> alive_count (MacroTool_start T) = 1" if idle: "\<not> is_running T"
  proof -
    have run: "is_running (MacroTool_start T)"
      using idle by (simp add: MacroTool_start_def is_running_def)
    have "alive_count (MacroTool_start T) = (if is_running (MacroTool_start T) then 1 else 0)"
      using inv by (intro alive_count_running one_thread_start)
    with run idle show ?thesis
      by (simp add: MacroTool_start_def)
  qed
  show ?thesis
    using count started by (simp add: MacroTool_start_def)
qed

lemma init_bad_action:
  "MacroTool_init env_pynput config_bad_action
     = Inr \<lparr>trigger_hotkey = None, quit_hotkey = None,
            trigger_key = Some (KeyAttr ''enter''), quit_key = None, loop = False,
            macro = [VDict [(''type'', VStr ''key''), (''key'', VStr ''a''),
                            (''action'', VStr ''hold'')]],
            shared = init_state, thread = None, threads = []\<rparr>"
  by code_simp

lemma events_example:
  "threads (run_events env_pynput
      [EvStart, EvStart, EvBackground (mark_down ''key:a''), EvThreadEnds 0, EvToggle, EvStop]
      (projr (MacroTool_init env_pynput config_bad_action))) = [False, True]
   \<and> is_running (run_events env_pynput
      [EvStart, EvStart, EvBackground (mark_down ''key:a''), EvThreadEnds 0, EvToggle, EvStop]
      (projr (MacroTool_init env_pynput config_bad_action)))"
  by code_simp

theorem at_most_one_background_thread_witness:
  "threads (run_events env_pynput
      [EvStart, EvStart, EvBackground (mark_down ''key:a''), EvThreadEnds 0, EvToggle, EvStop]
      (projr (MacroTool_init env_pynput config_bad_action))) = [False, True]
   \<and> alive_count (run_events env_pynput
      [EvStart, EvStart, EvBackground (mark_down ''key:a''), EvThreadEnds 0, EvToggle, EvStop]
      (projr (MacroTool_init env_pynput config_bad_action))) = 1"
proof -
  have built: "MacroTool_init env_pynput config_bad_action
      = Inr (projr (MacroTool_init env_pynput config_bad_action))"
    by (simp add: init_bad_action)
  from at_most_one_background_thread [OF built refl] events_example
  show ?thesis
    by presburger
qed

section \<open>Stop and the end of a run\<close>

lemma MacroTool_stop_eq:
  "MacroTool_stop E T
     = (None, T\<lparr>shared := \<lparr>held = [], stop_set = True,
                            log = log (shared T)
                                    @ List.map_filter (release_call E) (held (shared T))\<rparr>\<rparr>)"
  by (simp add: MacroTool_stop_def release_all_eq)

text \<open>
  C2, as the code has it. Whether the runner is running or not and whatever tokens are
  held, \<^verbatim>\<open>stop\<close> sets the cancellation signal and runs the release sweep; it raises
  nothing, and when it returns the held tokens are empty, as long as the background
  thread has marked nothing in between (here \<^verbatim>\<open>stop\<close> runs as one step). It leaves
  \<^verbatim>\<open>is_running\<close> as it was. A second \<^verbatim>\<open>stop\<close> changes nothing more, and with no
  token held \<^verbatim>\<open>stop\<close> makes no backend call: it only sets the signal.
\<close>

theorem stop_sets_signal_and_releases:
  "MacroTool_stop E T
     = (None, T\<lparr>shared := \<lparr>held = [], stop_set = True,
                            log = log (shared T)
                                    @ List.map_filter (release_call E) (held (shared T))\<rparr>\<rparr>)
   \<and> held (shared (snd (MacroTool_stop E T))) = []
   \<and> stop_set (shared (snd (MacroTool_stop E T)))
   \<and> is_running (snd (MacroTool_stop E T)) = is_running T
   \<and> MacroTool_stop E (snd (MacroTool_stop E T)) = (None, snd (MacroTool_stop E T))
   \<and> (held (shared T) = [] \<longrightarrow>
        MacroTool_stop E T = (None, T\<lparr>shared := (shared T)\<lparr>stop_set := True\<rparr>\<rparr>))"
  by (simp add: MacroTool_stop_eq is_running_def List.map_filter_simps split: option.splits)

lemma init_press_then_unknown:
  "MacroTool_init env_pynput config_press_then_unknown
     = Inr \<lparr>trigger_hotkey = None, quit_hotkey = None,
            trigger_key = Some (KeyAttr ''enter''), quit_key = None, loop = False,
            macro = [VDict [(''type'', VStr ''key''), (''key'', VStr ''a''),
                            (''action'', VStr ''press'')],
                     VDict [(''type'', VStr ''dance'')]],
            shared = init_state, thread = None, threads = []\<rparr>"
  by code_simp

theorem stop_sets_signal_and_releases_witness:
  "MacroTool_stop env_pynput (projr (MacroTool_init env_pynput config_press_then_unknown))
     = (None, (projr (MacroTool_init env_pynput config_press_then_unknown))
                \<lparr>shared := \<lparr>held = [], stop_set = True, log = []\<rparr>\<rparr>)"
proof -
  have idle: "held (shared (projr (MacroTool_init env_pynput config_press_then_unknown))) = []"
    by (simp add: init_press_then_unknown init_state_def)
  from stop_sets_signal_and_releases
         [of env_pynput "projr (MacroTool_init env_pynput config_press_then_unknown)"] idle
  have "MacroTool_stop env_pynput (projr (MacroTool_init env_pynput config_press_then_unknown))
      = (None, (projr (MacroTool_init env_pynput config_press_then_unknown))
                 \<lparr>shared := (shared (projr (MacroTool_init env_pynput config_press_then_unknown)))
                               \<lparr>stop_set := True\<rparr>\<rparr>)"
    by blast
  then show ?thesis
    by (simp add: init_press_then_unknown init_state_def)
qed

text \<open>
  C2 as stated fails when the runner is running. The background thread runs the press
  step of the macro: it makes the press call, and before it marks the token the control
  thread runs \<^verbatim>\<open>stop\<close>. The sweep of \<^verbatim>\<open>stop\<close> finds no token; the mark comes after
  it. With \<^verbatim>\<open>stop\<close> returned, the token \<open>key:a\<close> is held and the key is down, with
  no release call made. (The press step is these two parts: \<open>do_step_press\<close>.)
\<close>

theorem stop_misses_late_mark_down:
  "press_call env_pynput
      [(''type'', VStr ''key''), (''key'', VStr ''a''), (''action'', VStr ''press'')]
     = Some (K_press (KeyChar CHR ''a''), ''key:a'')
   \<and> stop_during_press env_pynput (K_press (KeyChar CHR ''a'')) ''key:a''
       (MacroTool_start (projr (MacroTool_init env_pynput config_press_then_unknown)))
     = (None,
        \<lparr>trigger_hotkey = None, quit_hotkey = None,
           trigger_key = Some (KeyAttr ''enter''), quit_key = None, loop = False,
           macro = [VDict [(''type'', VStr ''key''), (''key'', VStr ''a''),
                           (''action'', VStr ''press'')],
                    VDict [(''type'', VStr ''dance'')]],
           shared = \<lparr>held = [''key:a''], stop_set = True,
                       log = [K_press (KeyChar CHR ''a'')]\<rparr>,
           thread = Some 0, threads = [True]\<rparr>)"
  by code_simp

text \<open>Once the cancellation signal is set, what is left of the step sequence makes no
  call: the loops end at their next check. The sweep at the end of \<^verbatim>\<open>_run\<close> then
  releases what is held, also a token marked after the sweep of \<^verbatim>\<open>stop\<close>.\<close>

lemma run_steps_cancelled: "stop_set s \<Longrightarrow> run_steps E steps s = (None, s)"
  by (cases steps) simp_all

lemma run_loop_cancelled: "stop_set s \<Longrightarrow> run_loop E steps s = Some (None, s)"
  by (simp add: run_loop.simps)

lemma run_loop_raises:
  "\<not> stop_set s \<Longrightarrow> run_steps E steps s = (Some e, s1) \<Longrightarrow> run_loop E steps s = Some (Some e, s1)"
  by (subst run_loop.simps) simp

lemma late_mark_released_at_end:
  "release_all env_pynput
      (shared (snd (stop_during_press env_pynput (K_press (KeyChar CHR ''a'')) ''key:a''
         (MacroTool_start (projr (MacroTool_init env_pynput config_press_then_unknown))))))
     = (None, \<lparr>held = [], stop_set = True,
               log = [K_press (KeyChar CHR ''a''), K_release (KeyChar CHR ''a'')]\<rparr>)"
  by code_simp

lemma run_passes_raises:
  "fst (run_passes E steps n s) = Some e \<Longrightarrow> run_loop E steps s = Some (run_passes E steps n s)"
proof (induction n arbitrary: s)
  case 0
  then show ?case by simp
next
  case (Suc n)
  from Suc.prems have run: "\<not> stop_set s"
    by (auto split: if_splits)
  obtain r s1 where pass: "run_steps E steps s = (r, s1)"
    by (cases "run_steps E steps s")
  show ?case
  proof (cases r)
    case None
    with Suc.prems run pass have "fst (run_passes E steps n s1) = Some e"
      by (simp add: and_then_def)
    then have "run_loop E steps s1 = Some (run_passes E steps n s1)"
      by (rule Suc.IH)
    then show ?thesis
      using run pass None by (subst run_loop.simps) (simp add: and_then_def)
  next
    case (Some e')
    then show ?thesis
      using run pass by (subst run_loop.simps) (simp add: and_then_def)
  qed
qed

lemma run_body_raises:
  assumes "fst (run_body E T n s) = Some e"
  shows "MacroTool_run E T s = Some (Some e, snd (release_all E (snd (run_body E T n s))))"
proof (cases "loop T")
  case True
  with assms have "run_loop E (macro T) s = Some (run_passes E (macro T) n s)"
    by (simp add: run_body_def run_passes_raises)
  then show ?thesis
    using True assms
    by (cases "run_passes E (macro T) n s")
       (simp add: MacroTool_run_def run_body_def release_all_eq py_finally_def)
next
  case False
  then show ?thesis
    using assms
    by (cases "run_steps E (macro T) s")
       (simp add: MacroTool_run_def run_body_def release_all_eq py_finally_def)
qed

text \<open>
  C1, as the code has it. \<^verbatim>\<open>_run\<close> catches nothing: its \<^verbatim>\<open>try\<close> has a \<^verbatim>\<open>finally\<close>
  and no \<^verbatim>\<open>except\<close>. When a step raises the error \<open>e\<close>, in the only pass of the
  macro or in any pass \<open>n\<close> of a looping one, \<^verbatim>\<open>_run\<close> ends: the release sweep runs
  on the state the steps left and no token stays held, and then \<open>e\<close> leaves \<^verbatim>\<open>_run\<close>.
  That ends the background thread and nothing else: the tool is left not running, and
  the operations of the control thread on it go on without error, \<^verbatim>\<open>stop\<close> and
  \<^verbatim>\<open>toggle\<close> returning normally and \<^verbatim>\<open>start\<close> starting a new run.
\<close>

theorem run_releases_then_reraises:
  assumes "fst (run_body E T n (shared T)) = Some e"
    and "thread T = Some k"
    and "T' = T\<lparr>shared := snd (release_all E (snd (run_body E T n (shared T)))),
                  threads := (threads T)[k := False]\<rparr>"
  shows "MacroTool_run E T (shared T)
           = Some (Some e, snd (release_all E (snd (run_body E T n (shared T)))))
         \<and> thread_main E T = Some (Some e, T')
         \<and> held (shared T') = []
         \<and> log (shared T')
             = log (snd (run_body E T n (shared T)))
               @ List.map_filter (release_call E) (held (snd (run_body E T n (shared T))))
         \<and> \<not> is_running T'
         \<and> fst (MacroTool_stop E T') = None
         \<and> fst (toggle E T') = None
         \<and> is_running (snd (toggle E T'))
         \<and> is_running (MacroTool_start T')"
proof -
  have run: "MacroTool_run E T (shared T)
      = Some (Some e, snd (release_all E (snd (run_body E T n (shared T)))))"
    using assms(1) by (rule run_body_raises)
  have ended: "thread_main E T = Some (Some e, T')"
    using run assms(2,3) by (simp add: thread_main_def)
  have idle: "\<not> is_running T'"
    using assms(2,3) by (simp add: is_running_def)
  have restart: "is_running (MacroTool_start T')"
    using idle by (simp add: MacroTool_start_def is_running_def)
  have swept: "held (shared T') = []"
    and calls: "log (shared T')
      = log (snd (run_body E T n (shared T)))
        @ List.map_filter (release_call E) (held (snd (run_body E T n (shared T))))"
    using assms(3) by (simp_all add: release_all_eq)
  have stop: "fst (MacroTool_stop E T') = None"
    by (simp add: MacroTool_stop_eq)
  show ?thesis
    using run ended idle restart swept calls stop by (simp add: toggle_def)
qed

lemma tap_loop_started:
  "MacroTool_start (projr (MacroTool_init env_fourth_call_raises config_tap_loop))
     = \<lparr>trigger_hotkey = None, quit_hotkey = None,
        trigger_key = Some (KeyAttr ''enter''), quit_key = None, loop = True,
        macro = [VDict [(''type'', VStr ''key''), (''key'', VStr ''a'')]],
        shared = init_state, thread = Some 0, threads = [True]\<rparr>"
  by code_simp

lemma tap_loop_second_pass_raises:
  "run_passes env_fourth_call_raises [VDict [(''type'', VStr ''key''), (''key'', VStr ''a'')]]
      2 init_state
     = (Some BackendError,
        \<lparr>held = [], stop_set = False,
           log = [K_press (KeyChar CHR ''a''), K_release (KeyChar CHR ''a''),
                  K_press (KeyChar CHR ''a''), K_release (KeyChar CHR ''a'')]\<rparr>)"
  by code_simp

theorem run_releases_then_reraises_witness:
  "thread_main env_fourth_call_raises
      (MacroTool_start (projr (MacroTool_init env_fourth_call_raises config_tap_loop)))
     = Some (Some BackendError,
        \<lparr>trigger_hotkey = None, quit_hotkey = None,
           trigger_key = Some (KeyAttr ''enter''), quit_key = None, loop = True,
           macro = [VDict [(''type'', VStr ''key''), (''key'', VStr ''a'')]],
           shared = \<lparr>held = [], stop_set = False,
                       log = [K_press (KeyChar CHR ''a''), K_release (KeyChar CHR ''a''),
                              K_press (KeyChar CHR ''a''), K_release (KeyChar CHR ''a'')]\<rparr>,
           thread = Some 0, threads = [False]\<rparr>)"
proof -
  let ?E = "env_fourth_call_raises"
  let ?T = "MacroTool_start (projr (MacroTool_init env_fourth_call_raises config_tap_loop))"
  let ?s1 = "\<lparr>held = [], stop_set = False,
              log = [K_press (KeyChar CHR ''a''), K_release (KeyChar CHR ''a''),
                     K_press (KeyChar CHR ''a''), K_release (KeyChar CHR ''a'')]\<rparr>"
  have body: "run_body ?E ?T 2 (shared ?T) = (Some BackendError, ?s1)"
    unfolding tap_loop_started by (simp add: run_body_def tap_loop_second_pass_raises)
  have raised: "fst (run_body ?E ?T 2 (shared ?T)) = Some BackendError"
    by (simp add: body)
  have th: "thread ?T = Some 0"
    by (simp add: tap_loop_started)
  from run_releases_then_reraises [OF raised th refl]
  have "thread_main ?E ?T
      = Some (Some BackendError,
              ?T\<lparr>shared := snd (release_all ?E (snd (run_body ?E ?T 2 (shared ?T)))),
                  threads := (threads ?T)[0 := False]\<rparr>)"
    by blast
  then show ?thesis
    unfolding body unfolding tap_loop_started
    by (simp add: release_all_eq List.map_filter_simps)
qed

text \<open>
  C1 as stated fails: the error of the step of unknown type is not caught. After the
  sweep has released the key that the first step pressed, \<^verbatim>\<open>_run\<close> ends with that
  error.
\<close>

theorem run_does_not_catch:
  "MacroTool_run env_pynput (projr (MacroTool_init env_pynput config_press_then_unknown))
      init_state
     = Some (Some ValueError,
             \<lparr>held = [], stop_set = False,
                log = [K_press (KeyChar CHR ''a''), K_release (KeyChar CHR ''a'')]\<rparr>)"
  by code_simp

end
